theory Spec2Isabelle
  imports Main
begin

section \<open>JavaScript values\<close>

text \<open>
  The values that flow through \<^verbatim>\<open>sync-meilisearch.ts\<close>: the results of \<^verbatim>\<open>JSON.parse\<close>,
  the fields of store documents and the payloads handed to \<^verbatim>\<open>JSON.stringify\<close>.
  Numbers are integers (chat and message identifiers). A \<^verbatim>\<open>Date\<close> is represented by its
  ISO-8601 rendering, \<open>None\<close> being the invalid date; an \<^verbatim>\<open>ObjectId\<close> by its hex string.
\<close>

datatype jsval =
    JUndefined
  | JNull
  | JBool bool
  | JNum int
  | JStr string
  | JDate "string option"
  | JObjectId string
  | JArr "jsval list"
  | JObj "(string \<times> jsval) list"

datatype js_error = SyntaxError | TypeError | RangeError | IndexStoreError | MongoError

text \<open>JavaScript truthiness, as tested by \<^verbatim>\<open>&&\<close> and \<^verbatim>\<open>||\<close>.\<close>

fun truthy :: "jsval \<Rightarrow> bool" where
  "truthy JUndefined = False"
| "truthy JNull = False"
| "truthy (JBool b) = b"
| "truthy (JNum n) = (n \<noteq> 0)"
| "truthy (JStr s) = (s \<noteq> [])"
| "truthy (JDate d) = True"
| "truthy (JObjectId h) = True"
| "truthy (JArr xs) = True"
| "truthy (JObj kvs) = True"

text \<open>
  Property access \<^verbatim>\<open>v.key\<close> for the keys the program reads (\<^verbatim>\<open>type\<close>, \<^verbatim>\<open>chatId\<close>,
  \<^verbatim>\<open>chat_id\<close>), none of which a built-in prototype defines: it throws on
  \<^verbatim>\<open>undefined\<close> and \<^verbatim>\<open>null\<close>, reads an object's own property, and is
  \<^verbatim>\<open>undefined\<close> everywhere else.
\<close>

fun get_prop :: "jsval \<Rightarrow> string \<Rightarrow> js_error + jsval" where
  "get_prop JUndefined key = Inl TypeError"
| "get_prop JNull key = Inl TypeError"
| "get_prop (JObj kvs) key = (case map_of kvs key of None \<Rightarrow> Inr JUndefined | Some v \<Rightarrow> Inr v)"
| "get_prop v key = Inr JUndefined"

text \<open>
  Objects, arrays, dates and object ids are compared by reference. Every such value the
  program meets is freshly allocated (by \<^verbatim>\<open>JSON.parse\<close> or by the store driver), so it is
  never the same reference as one already held in a set.
\<close>

fun by_reference :: "jsval \<Rightarrow> bool" where
  "by_reference (JDate d) = True"
| "by_reference (JObjectId h) = True"
| "by_reference (JArr xs) = True"
| "by_reference (JObj kvs) = True"
| "by_reference v = False"

text \<open>
  A JavaScript \<^verbatim>\<open>Set\<close>, in insertion order: \<^verbatim>\<open>has\<close>, \<^verbatim>\<open>add\<close>, \<^verbatim>\<open>delete\<close>,
  \<^verbatim>\<open>size\<close>.
\<close>

definition Set_has :: "jsval list \<Rightarrow> jsval \<Rightarrow> bool" where
  "Set_has s v = (\<not> by_reference v \<and> v \<in> set s)"

definition Set_add :: "jsval list \<Rightarrow> jsval \<Rightarrow> jsval list" where
  "Set_add s v = (if Set_has s v then s else s @ [v])"

definition Set_delete :: "jsval list \<Rightarrow> jsval \<Rightarrow> jsval list" where
  "Set_delete s v = (if by_reference v then s else removeAll v s)"

definition Set_size :: "jsval list \<Rightarrow> nat" where
  "Set_size s = length s"

text \<open>
  \<^verbatim>\<open>JSON.stringify\<close>. The frame text is represented by the JSON value it denotes:
  properties whose value is \<^verbatim>\<open>undefined\<close> are left out, \<^verbatim>\<open>undefined\<close> inside an
  array becomes \<^verbatim>\<open>null\<close>, dates and object ids are written through their
  \<^verbatim>\<open>toJSON\<close>.
\<close>

fun JSON_stringify :: "jsval \<Rightarrow> jsval" where
  "JSON_stringify (JDate d) = (case d of None \<Rightarrow> JNull | Some s \<Rightarrow> JStr s)"
| "JSON_stringify (JObjectId h) = JStr h"
| "JSON_stringify (JArr xs) =
     JArr (map (\<lambda>x. if x = JUndefined then JNull else JSON_stringify x) xs)"
| "JSON_stringify (JObj kvs) =
     JObj (map (\<lambda>(k, v). (k, JSON_stringify v)) (filter (\<lambda>(k, v). v \<noteq> JUndefined) kvs))"
| "JSON_stringify v = v"

section \<open>Store documents and change-stream notifications\<close>

text \<open>
  A store document: its \<^verbatim>\<open>_id\<close> (an \<^verbatim>\<open>ObjectId\<close>, by its hex string) and its other
  properties in document order. \<open>field d key\<close> is \<^verbatim>\<open>d.key\<close>.
\<close>

record document =
  oid :: string
  props :: "(string \<times> jsval) list"

definition field :: "document \<Rightarrow> string \<Rightarrow> jsval" where
  "field d key = (case map_of (props d) key of None \<Rightarrow> JUndefined | Some v \<Rightarrow> v)"

datatype operation =
  Insert | Update | Replace | Delete | Drop | Rename | DropDatabase | Invalidate

text \<open>
  A change-stream notification \<^verbatim>\<open>{operationType, documentKey, fullDocument?}\<close>;
  \<open>documentKey\<close> is \<^verbatim>\<open>documentKey._id.toString()\<close>.
\<close>

record change =
  operationType :: operation
  fullDocument :: "document option"
  documentKey :: string

section \<open>The WebSocket server: registry of clients\<close>

datatype ready_state = CONNECTING | OPEN | CLOSING | CLOSED

text \<open>A socket: its \<^verbatim>\<open>readyState\<close> and the frames written to it by \<^verbatim>\<open>send\<close>, oldest first.\<close>

record WebSocket =
  readyState :: ready_state
  sent :: "jsval list"

record ClientInfo =
  ws :: WebSocket
  subscribedChats :: "jsval list"

text \<open>
  The global \<^verbatim>\<open>clients: Set<ClientInfo>\<close>, in insertion order. Each \<^verbatim>\<open>ClientInfo\<close>
  object is paired with its reference (a number), by which \<^verbatim>\<open>clients.delete\<close> finds it
  and by which the handlers of one connection reach their own object.
\<close>

type_synonym clients = "(nat \<times> ClientInfo) list"

definition send :: "jsval \<Rightarrow> WebSocket \<Rightarrow> WebSocket" where
  "send wsMessage sock = sock\<lparr>sent := sent sock @ [wsMessage]\<rparr>"

text \<open>\<^verbatim>\<open>wss.on('connection')\<close>: \<open>ref\<close> is the reference of the new \<^verbatim>\<open>ClientInfo\<close>.\<close>

definition on_connection :: "nat \<Rightarrow> clients \<Rightarrow> clients" where
  "on_connection ref cs =
     (if ref \<in> fst ` set cs then cs
      else cs @ [(ref, \<lparr>ws = \<lparr>readyState = OPEN, sent = []\<rparr>, subscribedChats = []\<rparr>)])"

text \<open>
  \<^verbatim>\<open>ws.on('message')\<close> on one client. \<open>parsed\<close> is the outcome of
  \<^verbatim>\<open>JSON.parse(data.toString())\<close>, \<open>None\<close> when it throws; every exception of the
  \<^verbatim>\<open>try\<close> block is caught and logged.
\<close>

definition on_message :: "jsval option \<Rightarrow> ClientInfo \<Rightarrow> ClientInfo" where
  "on_message parsed clientInfo =
     (case parsed of
        None \<Rightarrow> clientInfo
      | Some message \<Rightarrow>
          (case get_prop message ''type'' of
             Inl e \<Rightarrow> clientInfo
           | Inr ty \<Rightarrow>
               (case get_prop message ''chatId'' of
                  Inl e \<Rightarrow> clientInfo
                | Inr chatId \<Rightarrow>
                    if ty = JStr ''subscribe'' \<and> truthy chatId then
                      clientInfo\<lparr>subscribedChats := Set_add (subscribedChats clientInfo) chatId\<rparr>
                    else if ty = JStr ''unsubscribe'' \<and> truthy chatId then
                      clientInfo\<lparr>subscribedChats := Set_delete (subscribedChats clientInfo) chatId\<rparr>
                    else clientInfo)))"

text \<open>The three per-connection handlers, acting on the registry.\<close>

definition ws_on_message :: "nat \<Rightarrow> jsval option \<Rightarrow> clients \<Rightarrow> clients" where
  "ws_on_message ref parsed cs =
     map (\<lambda>(a, c). if a = ref then (a, on_message parsed c) else (a, c)) cs"

definition ws_on_close :: "nat \<Rightarrow> clients \<Rightarrow> clients" where
  "ws_on_close ref cs = filter (\<lambda>(a, c). a \<noteq> ref) cs"

definition ws_on_error :: "nat \<Rightarrow> clients \<Rightarrow> clients" where
  "ws_on_error ref cs = filter (\<lambda>(a, c). a \<noteq> ref) cs"

section \<open>The WebSocket server: broadcasting changes\<close>

text \<open>
  The \<^verbatim>\<open>switch\<close> of the message change handler: the frame type and the payload, or
  \<open>None\<close> for the \<^verbatim>\<open>default: return\<close>.
\<close>

definition spread_with_id :: "document option \<Rightarrow> jsval" where
  "spread_with_id fd =
     (case fd of
        None \<Rightarrow> JObj [(''_id'', JUndefined)]
      | Some d \<Rightarrow> JObj ((''_id'', JStr (oid d)) # props d))"

definition change_frame :: "change \<Rightarrow> (string \<times> jsval) option" where
  "change_frame ch =
     (case operationType ch of
        Insert \<Rightarrow> Some (''new_message'', spread_with_id (fullDocument ch))
      | Delete \<Rightarrow> Some (''delete_message'',
                       JObj [(''id'', JStr (documentKey ch)), (''chat_id'', JUndefined)])
      | Update \<Rightarrow> Some (''update_message'', spread_with_id (fullDocument ch))
      | _ \<Rightarrow> None)"

definition payload_chat_id :: "jsval \<Rightarrow> jsval" where
  "payload_chat_id payload =
     (case get_prop payload ''chat_id'' of Inl e \<Rightarrow> JUndefined | Inr v \<Rightarrow> v)"

text \<open>The body of \<^verbatim>\<open>clients.forEach\<close> in the message change handler.\<close>

definition deliver :: "jsval \<Rightarrow> jsval \<Rightarrow> ClientInfo \<Rightarrow> ClientInfo" where
  "deliver wsMessage payload client =
     (if readyState (ws client) = OPEN then
        (let chatId = payload_chat_id payload in
         if Set_size (subscribedChats client) = 0
            \<or> (truthy chatId \<and> Set_has (subscribedChats client) chatId)
         then client\<lparr>ws := send wsMessage (ws client)\<rparr>
         else client)
      else client)"

definition frame :: "string \<Rightarrow> jsval \<Rightarrow> jsval" where
  "frame messageType payload =
     JSON_stringify (JObj [(''type'', JStr messageType), (''payload'', payload)])"

text \<open>\<^verbatim>\<open>changeStream.on('change')\<close> of the messages collection.\<close>

definition messages_on_change :: "change \<Rightarrow> clients \<Rightarrow> clients" where
  "messages_on_change ch cs =
     (case change_frame ch of
        None \<Rightarrow> cs
      | Some (messageType, payload) \<Rightarrow>
          map (\<lambda>(a, client). (a, deliver (frame messageType payload) payload client)) cs)"

text \<open>
  \<^verbatim>\<open>activatedChatsChangeStream.on('change')\<close>. \<open>counted\<close> is the outcome of the awaited
  \<^verbatim>\<open>countDocuments\<close> query: the count it resolved to, or the error it rejected with.
  The handler has no \<^verbatim>\<open>try\<close>: a rejection ends it before the broadcast, and the result
  carries that error. The registry is the one at the time of the broadcast.
\<close>

definition groupData :: "document \<Rightarrow> int \<Rightarrow> jsval" where
  "groupData d messageCount =
     JObj [(''_id'', JStr (oid d)),
           (''chat_id'', field d ''chat_id''),
           (''chat_title'', field d ''chat_title''),
           (''chat_type'', field d ''chat_type''),
           (''activated_at'', field d ''activated_at''),
           (''message_count'', JNum messageCount)]"

definition send_if_open :: "jsval \<Rightarrow> ClientInfo \<Rightarrow> ClientInfo" where
  "send_if_open wsMessage client =
     (if readyState (ws client) = OPEN then client\<lparr>ws := send wsMessage (ws client)\<rparr>
      else client)"

definition activated_on_change ::
    "js_error + int \<Rightarrow> change \<Rightarrow> clients \<Rightarrow> js_error option \<times> clients" where
  "activated_on_change counted ch cs =
     (case fullDocument ch of
        Some d \<Rightarrow>
          if operationType ch = Insert then
            (case counted of
               Inl e \<Rightarrow> (Some e, cs)
             | Inr messageCount \<Rightarrow>
                 (None,
                  map (\<lambda>(a, client).
                         (a, send_if_open (frame ''new_group'' (groupData d messageCount)) client))
                    cs))
          else (None, cs)
      | None \<Rightarrow> (None, cs))"

section \<open>The search index\<close>

text \<open>
  The object the transform of \<^verbatim>\<open>syncMessages\<close> and \<^verbatim>\<open>watchAndSync\<close> builds; \<open>d_id\<close> is
  its \<^verbatim>\<open>id\<close>, the primary key, and \<open>d_oid\<close> its \<^verbatim>\<open>_id\<close>.
\<close>

record IndexDocument =
  d_id :: string
  d_oid :: string
  d_message_id :: jsval
  d_chat_id :: jsval
  d_date :: jsval
  d_from_user :: jsval
  d_text :: jsval
  d_caption :: jsval
  d_logged_at :: jsval
  d_was_edited :: jsval

text \<open>
  \<^verbatim>\<open>v instanceof Date ? v.toISOString() : v\<close>; \<^verbatim>\<open>toISOString\<close> throws a
  \<^verbatim>\<open>RangeError\<close> on the invalid date.
\<close>

definition iso_or_self :: "jsval \<Rightarrow> js_error + jsval" where
  "iso_or_self v =
     (case v of
        JDate None \<Rightarrow> Inl RangeError
      | JDate (Some s) \<Rightarrow> Inr (JStr s)
      | _ \<Rightarrow> Inr v)"

text \<open>\<^verbatim>\<open>v || false\<close>\<close>

definition or_false :: "jsval \<Rightarrow> jsval" where
  "or_false v = (if truthy v then v else JBool False)"

definition transform :: "document \<Rightarrow> js_error + IndexDocument" where
  "transform msg =
     (case iso_or_self (field msg ''date'') of
        Inl e \<Rightarrow> Inl e
      | Inr date \<Rightarrow>
          (case iso_or_self (field msg ''logged_at'') of
             Inl e \<Rightarrow> Inl e
           | Inr logged_at \<Rightarrow>
               Inr \<lparr>d_id = oid msg,
                    d_oid = oid msg,
                    d_message_id = field msg ''message_id'',
                    d_chat_id = field msg ''chat_id'',
                    d_date = date,
                    d_from_user = field msg ''from_user'',
                    d_text = field msg ''text'',
                    d_caption = field msg ''caption'',
                    d_logged_at = logged_at,
                    d_was_edited = or_false (field msg ''was_edited'')\<rparr>))"

text \<open>\<^verbatim>\<open>messages.map(...)\<close> with that transform: the first exception ends the map.\<close>

fun map_transform :: "document list \<Rightarrow> js_error + IndexDocument list" where
  "map_transform [] = Inr []"
| "map_transform (msg # msgs) =
     (case transform msg of
        Inl e \<Rightarrow> Inl e
      | Inr d \<Rightarrow> (case map_transform msgs of Inl e \<Rightarrow> Inl e | Inr ds \<Rightarrow> Inr (d # ds)))"

datatype task =
    SettingsUpdate
  | DocumentAdditionOrUpdate "IndexDocument list"
  | DocumentDeletion string

text \<open>
  Modelled from the spec: the index store is an external service; the spec (section 6)
  gives its contract as an upsert-by-identity and a delete-by-identity operation over a
  document collection, where removing an absent identity is not an error. The store keeps
  its documents by primary key and the tasks it accepted, oldest first. A request can be
  rejected (the store is unreachable): \<open>outage idx n\<close> says that the request number \<open>n\<close>
  is, and \<open>requests\<close> counts the requests made so far. Every operation returns the
  task number or the error, and the store after the request.
\<close>

record search_index =
  documents :: "string \<rightharpoonup> IndexDocument"
  tasks :: "task list"
  requests :: nat
  outage :: "nat \<Rightarrow> bool"

definition upsert :: "IndexDocument \<Rightarrow> (string \<rightharpoonup> IndexDocument) \<Rightarrow> (string \<rightharpoonup> IndexDocument)" where
  "upsert d m = m(d_id d \<mapsto> d)"

definition request :: "task \<Rightarrow> (string \<rightharpoonup> IndexDocument) \<Rightarrow> search_index
    \<Rightarrow> (js_error + nat) \<times> search_index" where
  "request t docs' idx =
     (if outage idx (requests idx) then
        (Inl IndexStoreError, idx\<lparr>requests := Suc (requests idx)\<rparr>)
      else
        (Inr (length (tasks idx)),
         idx\<lparr>documents := docs', tasks := tasks idx @ [t], requests := Suc (requests idx)\<rparr>))"

definition updateSettings :: "search_index \<Rightarrow> (js_error + nat) \<times> search_index" where
  "updateSettings idx = request SettingsUpdate (documents idx) idx"

definition addDocuments :: "IndexDocument list \<Rightarrow> search_index \<Rightarrow> (js_error + nat) \<times> search_index" where
  "addDocuments ds idx =
     request (DocumentAdditionOrUpdate ds) (fold upsert ds (documents idx)) idx"

definition deleteDocument :: "string \<Rightarrow> search_index \<Rightarrow> (js_error + nat) \<times> search_index" where
  "deleteDocument key idx =
     request (DocumentDeletion key) ((documents idx)(key := None)) idx"

section \<open>Incremental synchronisation\<close>

datatype log_entry =
    Indexed operation string
  | Deleted string
  | Failed js_error

record sync_state =
  index :: search_index
  log :: "log_entry list"

text \<open>The \<^verbatim>\<open>insert\<close>/\<^verbatim>\<open>update\<close> branch of the change handler, inside its \<^verbatim>\<open>try\<close>.\<close>

definition sync_upsert :: "change \<Rightarrow> sync_state \<Rightarrow> sync_state" where
  "sync_upsert ch st =
     (case fullDocument ch of
        None \<Rightarrow> st
      | Some fd \<Rightarrow>
          (case transform fd of
             Inl e \<Rightarrow> st\<lparr>log := log st @ [Failed e]\<rparr>
           | Inr doc \<Rightarrow>
               (case addDocuments [doc] (index st) of
                  (Inl e, idx') \<Rightarrow> st\<lparr>index := idx', log := log st @ [Failed e]\<rparr>
                | (Inr uid, idx') \<Rightarrow>
                    st\<lparr>index := idx', log := log st @ [Indexed (operationType ch) (d_id doc)]\<rparr>)))"

text \<open>The \<^verbatim>\<open>delete\<close> branch.\<close>

definition sync_delete :: "change \<Rightarrow> sync_state \<Rightarrow> sync_state" where
  "sync_delete ch st =
     (let deletedId = documentKey ch in
      case deleteDocument deletedId (index st) of
        (Inl e, idx') \<Rightarrow> st\<lparr>index := idx', log := log st @ [Failed e]\<rparr>
      | (Inr uid, idx') \<Rightarrow> st\<lparr>index := idx', log := log st @ [Deleted deletedId]\<rparr>)"

text \<open>
  \<^verbatim>\<open>changeStream.on('change')\<close> of \<^verbatim>\<open>watchAndSync\<close>: the \<^verbatim>\<open>catch\<close> logs whatever the
  \<^verbatim>\<open>try\<close> block throws, so the handler always returns.
\<close>

definition sync_on_change :: "change \<Rightarrow> sync_state \<Rightarrow> sync_state" where
  "sync_on_change ch st =
     (case operationType ch of
        Insert \<Rightarrow> sync_upsert ch st
      | Update \<Rightarrow> sync_upsert ch st
      | Delete \<Rightarrow> sync_delete ch st
      | _ \<Rightarrow> st)"

text \<open>The notifications of the feed, handled one after the other in feed order.\<close>

definition watchAndSync :: "change list \<Rightarrow> sync_state \<Rightarrow> sync_state" where
  "watchAndSync feed st = fold sync_on_change feed st"

section \<open>Backfill\<close>

text \<open>
  \<^verbatim>\<open>find({}).sort({date: -1}).skip(skip).limit(limit).toArray()\<close> on a collection given
  as the list in which the sorted cursor enumerates it; a limit of 0 is no limit.
\<close>

definition find_page :: "document list \<Rightarrow> nat \<Rightarrow> nat \<Rightarrow> document list" where
  "find_page store skp limit =
     (if limit = 0 then drop skp store else take limit (drop skp store))"

record backfill =
  processed :: nat
  skip :: nat
  target :: search_index

text \<open>
  The \<^verbatim>\<open>while (skip < totalCount)\<close> loop. The result is the exception that ended the
  function, if any, and the state reached; \<open>None\<close> is a loop that never ends.
\<close>

partial_function (option) batch_loop ::
    "nat \<Rightarrow> document list \<Rightarrow> nat \<Rightarrow> backfill \<Rightarrow> (js_error option \<times> backfill) option" where
  "batch_loop BATCH_SIZE store totalCount s =
     (if skip s < totalCount then
        (let messages = find_page store (skip s) BATCH_SIZE in
         if length messages = 0 then Some (None, s)
         else
           (case map_transform messages of
              Inl e \<Rightarrow> Some (Some e, s)
            | Inr ds \<Rightarrow>
                (case addDocuments ds (target s) of
                   (Inl e, idx') \<Rightarrow> Some (Some e, s\<lparr>target := idx'\<rparr>)
                 | (Inr uid, idx') \<Rightarrow>
                     batch_loop BATCH_SIZE store totalCount
                       \<lparr>processed = processed s + length messages,
                        skip = skip s + BATCH_SIZE,
                        target = idx'\<rparr>)))
      else Some (None, s))"

declare batch_loop.simps [code]

definition syncMessages ::
    "nat \<Rightarrow> document list \<Rightarrow> search_index \<Rightarrow> (js_error option \<times> backfill) option" where
  "syncMessages BATCH_SIZE store idx =
     (case updateSettings idx of
        (Inl e, idx') \<Rightarrow> Some (Some e, \<lparr>processed = 0, skip = 0, target = idx'\<rparr>)
      | (Inr uid, idx') \<Rightarrow>
          (let totalCount = length store in
           if totalCount = 0 then Some (None, \<lparr>processed = 0, skip = 0, target = idx'\<rparr>)
           else batch_loop BATCH_SIZE store totalCount \<lparr>processed = 0, skip = 0, target = idx'\<rparr>))"

section \<open>Notions of the specification\<close>

text \<open>
  From the spec's words: "in bounded batches". The list cut into consecutive batches of
  \<open>B\<close> elements, the last one possibly shorter.
\<close>

function batches :: "nat \<Rightarrow> 'a list \<Rightarrow> 'a list list" where
  "batches B xs = (if B = 0 \<or> xs = [] then [] else take B xs # batches B (drop B xs))"
  by pat_completeness auto
termination
  by (relation "measure (\<lambda>(B, xs). length xs)") auto

declare batches.simps [simp del]

text \<open>
  From the spec's words: the mutations of the store on a single identity, the store state
  they leave ("the final store state") and the index document obtained by "directly
  transforming" that state.
\<close>

datatype store_op = Ins document | Upd document | Del

fun apply_op :: "store_op \<Rightarrow> document option \<Rightarrow> document option" where
  "apply_op (Ins d) s = Some d"
| "apply_op (Upd d) s = Some d"
| "apply_op Del s = None"

definition final_store_state :: "store_op list \<Rightarrow> document option \<Rightarrow> document option" where
  "final_store_state ops s0 = fold apply_op ops s0"

definition direct_transform :: "document option \<Rightarrow> IndexDocument option" where
  "direct_transform s =
     (case s of
        None \<Rightarrow> None
      | Some d \<Rightarrow> (case transform d of Inl e \<Rightarrow> None | Inr t \<Rightarrow> Some t))"

text \<open>
  The notification the feed carries for a mutation of the identity \<open>i\<close>: the full
  document after an insert or update (\<^verbatim>\<open>fullDocument: 'updateLookup'\<close>), the key alone
  for a delete.
\<close>

fun event_of :: "string \<Rightarrow> store_op \<Rightarrow> change" where
  "event_of i (Ins d) = \<lparr>operationType = Insert, fullDocument = Some d, documentKey = i\<rparr>"
| "event_of i (Upd d) = \<lparr>operationType = Update, fullDocument = Some d, documentKey = i\<rparr>"
| "event_of i Del = \<lparr>operationType = Delete, fullDocument = None, documentKey = i\<rparr>"

text \<open>A mutation of the identity \<open>i\<close>: the document it writes carries that identity.\<close>

fun carries :: "string \<Rightarrow> store_op \<Rightarrow> bool" where
  "carries i (Ins d) = (oid d = i)"
| "carries i (Upd d) = (oid d = i)"
| "carries i Del = True"

text \<open>A mutation whose document, if it writes one, has valid dates: the transform returns.\<close>

fun transformable :: "store_op \<Rightarrow> bool" where
  "transformable (Ins d) = (\<not> isl (transform d))"
| "transformable (Upd d) = (\<not> isl (transform d))"
| "transformable Del = True"

text \<open>The notifications on which the incremental handler acts, writing one log line.\<close>

definition handled :: "change \<Rightarrow> bool" where
  "handled ch =
     (case operationType ch of
        Insert \<Rightarrow> fullDocument ch \<noteq> None
      | Update \<Rightarrow> fullDocument ch \<noteq> None
      | Delete \<Rightarrow> True
      | _ \<Rightarrow> False)"

section \<open>Scenarios\<close>

text \<open>The message \<^verbatim>\<open>{id: "m1", chat_id: 42, text: "hi"}\<close> of the spec's scenarios.\<close>

definition m1 :: document where
  "m1 = \<lparr>oid = ''m1'', props = [(''chat_id'', JNum 42), (''text'', JStr ''hi'')]\<rparr>"

definition m1_edited :: document where
  "m1_edited = \<lparr>oid = ''m1'', props = [(''chat_id'', JNum 42), (''text'', JStr ''hello''),
                                       (''was_edited'', JBool True)]\<rparr>"

definition bad_date :: document where
  "bad_date = \<lparr>oid = ''m2'', props = [(''chat_id'', JNum 42), (''date'', JDate None)]\<rparr>"

definition insert_m1 :: change where
  "insert_m1 = \<lparr>operationType = Insert, fullDocument = Some m1, documentKey = ''m1''\<rparr>"

definition delete_m1 :: change where
  "delete_m1 = \<lparr>operationType = Delete, fullDocument = None, documentKey = ''m1''\<rparr>"

definition chat7 :: document where
  "chat7 = \<lparr>oid = ''g7'', props = [(''chat_id'', JNum 7), (''chat_title'', JStr ''seven'')]\<rparr>"

definition insert_chat7 :: change where
  "insert_chat7 = \<lparr>operationType = Insert, fullDocument = Some chat7, documentKey = ''g7''\<rparr>"

definition client :: "ready_state \<Rightarrow> jsval list \<Rightarrow> ClientInfo" where
  "client rs subs = \<lparr>ws = \<lparr>readyState = rs, sent = []\<rparr>, subscribedChats = subs\<rparr>"

definition subscribe_frame :: "jsval \<Rightarrow> jsval" where
  "subscribe_frame chatId = JObj [(''type'', JStr ''subscribe''), (''chatId'', chatId)]"

definition unsubscribe_frame :: "jsval \<Rightarrow> jsval" where
  "unsubscribe_frame chatId = JObj [(''type'', JStr ''unsubscribe''), (''chatId'', chatId)]"

definition empty_index :: search_index where
  "empty_index = \<lparr>documents = Map.empty, tasks = [], requests = 0, outage = (\<lambda>n. False)\<rparr>"

definition fresh_sync :: sync_state where
  "fresh_sync = \<lparr>index = empty_index, log = []\<rparr>"



definition m1_invalid_date :: document where
  "m1_invalid_date = \<lparr>oid = ''m1'', props = [(''chat_id'', JNum 42), (''date'', JDate None)]\<rparr>"

definition insert_bad_date :: change where
  "insert_bad_date = \<lparr>operationType = Insert, fullDocument = Some bad_date, documentKey = ''m2''\<rparr>"

text \<open>A store that rejects the first request it gets and accepts the later ones.\<close>

definition flaky_sync :: sync_state where
  "flaky_sync = \<lparr>index = empty_index\<lparr>outage := (\<lambda>n. n = 0)\<rparr>, log = []\<rparr>"

text \<open>A store that accepts the first request it gets and rejects the second.\<close>

definition second_rejected_sync :: sync_state where
  "second_rejected_sync = \<lparr>index = empty_index\<lparr>outage := (\<lambda>n. n = 1)\<rparr>, log = []\<rparr>"

section \<open>Facts about sets, frames and the registry\<close>

lemma list_all2_map_self: "list_all2 P xs (map f xs) = (\<forall>x\<in>set xs. P x (f x))"
  by (simp add: list_all2_map2 list_all2_same)

lemma Set_add_set: "set (Set_add s v) = insert v (set s)"
  by (auto simp: Set_add_def Set_has_def)

lemma Set_delete_set: "\<not> by_reference v \<Longrightarrow> set (Set_delete s v) = set s - {v}"
  by (auto simp: Set_delete_def)

lemma Set_delete_not_has: "\<not> Set_has (Set_delete s v) v"
  by (auto simp: Set_delete_def Set_has_def)

text \<open>
  Subscription sets hold truthy values only: a new client starts with the empty set and
  the message handler adds a value only after testing it.
\<close>

lemma on_connection_truthy:
  "\<forall>(a, c)\<in>set cs. \<forall>v\<in>set (subscribedChats c). truthy v \<Longrightarrow>
   \<forall>(a, c)\<in>set (on_connection ref cs). \<forall>v\<in>set (subscribedChats c). truthy v"
  by (auto simp: on_connection_def)

lemma on_message_truthy:
  "\<forall>v\<in>set (subscribedChats c). truthy v \<Longrightarrow>
   \<forall>v\<in>set (subscribedChats (on_message parsed c)). truthy v"
  by (auto simp: on_message_def Set_add_def Set_delete_def
      split: option.splits sum.splits if_splits)

lemma ws_on_message_truthy:
  "\<forall>(a, c)\<in>set cs. \<forall>v\<in>set (subscribedChats c). truthy v \<Longrightarrow>
   \<forall>(a, c)\<in>set (ws_on_message ref parsed cs). \<forall>v\<in>set (subscribedChats c). truthy v"
proof (induction cs)
  case Nil
  then show ?case by (simp add: ws_on_message_def)
next
  case (Cons x cs)
  obtain a c where x: "x = (a, c)" by (cases x)
  have "\<forall>v\<in>set (subscribedChats (on_message parsed c)). truthy v"
    using Cons.prems x by (intro on_message_truthy) auto
  moreover have "\<forall>(a, c)\<in>set (ws_on_message ref parsed cs). \<forall>v\<in>set (subscribedChats c). truthy v"
    using Cons by auto
  ultimately show ?case
    using Cons.prems x by (auto simp: ws_on_message_def)
qed

lemma unregister_truthy:
  "\<forall>(a, c)\<in>set cs. \<forall>v\<in>set (subscribedChats c). truthy v \<Longrightarrow>
   (\<forall>(a, c)\<in>set (ws_on_close ref cs). \<forall>v\<in>set (subscribedChats c). truthy v)
   \<and> (\<forall>(a, c)\<in>set (ws_on_error ref cs). \<forall>v\<in>set (subscribedChats c). truthy v)"
  by (auto simp: ws_on_close_def ws_on_error_def)

lemma broadcast_truthy:
  "\<forall>(a, c)\<in>set cs. \<forall>v\<in>set (subscribedChats c). truthy v \<Longrightarrow>
   (\<forall>(a, c)\<in>set (messages_on_change ch cs). \<forall>v\<in>set (subscribedChats c). truthy v)
   \<and> (\<forall>(a, c)\<in>set (snd (activated_on_change n ch cs)). \<forall>v\<in>set (subscribedChats c). truthy v)"
  by (auto simp: messages_on_change_def activated_on_change_def deliver_def send_if_open_def
      Let_def split: option.splits if_splits sum.splits)

section \<open>The registry: close, error and control frames\<close>

text \<open>
  C9. On transport close or transport error the client is no longer in the registry; doing
  the removal again, by either handler, changes nothing more; and the clients with another
  reference stay as they were, in the same order.
\<close>

theorem unregister_idempotent:
  "ref \<notin> fst ` set (ws_on_close ref cs)
   \<and> ref \<notin> fst ` set (ws_on_error ref cs)
   \<and> ws_on_close ref (ws_on_close ref cs) = ws_on_close ref cs
   \<and> ws_on_error ref (ws_on_error ref cs) = ws_on_error ref cs
   \<and> ws_on_error ref (ws_on_close ref cs) = ws_on_close ref cs
   \<and> ws_on_close ref (ws_on_error ref cs) = ws_on_error ref cs
   \<and> filter (\<lambda>(a, c). a \<noteq> ref) (ws_on_close ref cs) = filter (\<lambda>(a, c). a \<noteq> ref) cs
   \<and> filter (\<lambda>(a, c). a \<noteq> ref) (ws_on_error ref cs) = filter (\<lambda>(a, c). a \<noteq> ref) cs"
  by (auto simp: ws_on_close_def ws_on_error_def)

theorem unregister_idempotent_witness:
  "ws_on_close 0 [(0, client OPEN []), (1, client OPEN [JNum 42])] = [(1, client OPEN [JNum 42])]
   \<and> ws_on_error 0 (ws_on_close 0 [(0, client OPEN []), (1, client OPEN [JNum 42])])
       = [(1, client OPEN [JNum 42])]
   \<and> ws_on_close 0 (ws_on_error 0 [(0, client OPEN []), (1, client OPEN [JNum 42])])
       = [(1, client OPEN [JNum 42])]"
  using unregister_idempotent [of 0 "[(0, client OPEN []), (1, client OPEN [JNum 42])]"]
  by (simp add: ws_on_close_def ws_on_error_def)

text \<open>
  C10. A control frame that is not valid JSON, or whose \<^verbatim>\<open>type\<close> is neither
  \<^verbatim>\<open>subscribe\<close> nor \<^verbatim>\<open>unsubscribe\<close>, or whose \<^verbatim>\<open>chatId\<close> is missing or falsy, leaves the
  whole registry unchanged. A \<^verbatim>\<open>subscribe\<close> frame with a truthy \<^verbatim>\<open>chatId\<close> adds that value
  to the set of the receiving client, an \<^verbatim>\<open>unsubscribe\<close> frame with a truthy \<^verbatim>\<open>chatId\<close>
  deletes it from that set. In every case the other clients, the references and the
  sockets are unchanged.
\<close>

theorem control_frames:
  "((parsed = None
      \<or> (\<exists>m. parsed = Some m \<and> get_prop m ''type'' \<noteq> Inr (JStr ''subscribe'')
                \<and> get_prop m ''type'' \<noteq> Inr (JStr ''unsubscribe''))
      \<or> (\<exists>m v. parsed = Some m \<and> get_prop m ''chatId'' = Inr v \<and> \<not> truthy v))
     \<longrightarrow> ws_on_message ref parsed cs = cs)
   \<and> (get_prop m ''type'' = Inr (JStr ''subscribe'') \<and> get_prop m ''chatId'' = Inr v \<and> truthy v
     \<longrightarrow> ws_on_message ref (Some m) cs =
          map (\<lambda>(a, c). if a = ref
                         then (a, c\<lparr>subscribedChats := Set_add (subscribedChats c) v\<rparr>)
                         else (a, c)) cs)
   \<and> (get_prop m ''type'' = Inr (JStr ''unsubscribe'') \<and> get_prop m ''chatId'' = Inr v \<and> truthy v
     \<longrightarrow> ws_on_message ref (Some m) cs =
          map (\<lambda>(a, c). if a = ref
                         then (a, c\<lparr>subscribedChats := Set_delete (subscribedChats c) v\<rparr>)
                         else (a, c)) cs)
   \<and> set (Set_add s v) = insert v (set s)
   \<and> \<not> Set_has (Set_delete s v) v
   \<and> (\<not> by_reference v \<longrightarrow> set (Set_delete s v) = set s - {v})
   \<and> filter (\<lambda>(a, c). a \<noteq> ref) (ws_on_message ref parsed cs) = filter (\<lambda>(a, c). a \<noteq> ref) cs
   \<and> map fst (ws_on_message ref parsed cs) = map fst cs
   \<and> map (\<lambda>(a, c). ws c) (ws_on_message ref parsed cs) = map (\<lambda>(a, c). ws c) cs"
proof -
  have ign: "ws_on_message ref p cs = cs" if "\<And>c. on_message p c = c" for p
    using that by (induction cs) (auto simp: ws_on_message_def)
  have a: "(parsed = None
      \<or> (\<exists>m. parsed = Some m \<and> get_prop m ''type'' \<noteq> Inr (JStr ''subscribe'')
                \<and> get_prop m ''type'' \<noteq> Inr (JStr ''unsubscribe''))
      \<or> (\<exists>m v. parsed = Some m \<and> get_prop m ''chatId'' = Inr v \<and> \<not> truthy v))
     \<longrightarrow> ws_on_message ref parsed cs = cs"
    by (intro impI ign) (auto simp: on_message_def split: option.splits sum.splits)
  have b: "get_prop m ''type'' = Inr (JStr ''subscribe'') \<and> get_prop m ''chatId'' = Inr v \<and> truthy v
     \<longrightarrow> ws_on_message ref (Some m) cs =
          map (\<lambda>(a, c). if a = ref
                         then (a, c\<lparr>subscribedChats := Set_add (subscribedChats c) v\<rparr>)
                         else (a, c)) cs"
    by (auto simp: ws_on_message_def on_message_def)
  have c: "get_prop m ''type'' = Inr (JStr ''unsubscribe'') \<and> get_prop m ''chatId'' = Inr v \<and> truthy v
     \<longrightarrow> ws_on_message ref (Some m) cs =
          map (\<lambda>(a, c). if a = ref
                         then (a, c\<lparr>subscribedChats := Set_delete (subscribedChats c) v\<rparr>)
                         else (a, c)) cs"
    by (auto simp: ws_on_message_def on_message_def)
  have d: "filter (\<lambda>(a, c). a \<noteq> ref) (ws_on_message ref parsed cs) = filter (\<lambda>(a, c). a \<noteq> ref) cs"
    by (induction cs) (auto simp: ws_on_message_def)
  have e: "map fst (ws_on_message ref parsed cs) = map fst cs"
    by (induction cs) (auto simp: ws_on_message_def)
  have f: "map (\<lambda>(a, c). ws c) (ws_on_message ref parsed cs) = map (\<lambda>(a, c). ws c) cs"
    by (induction cs) (auto simp: ws_on_message_def on_message_def split: option.splits sum.splits)
  from a b c d e f Set_add_set [of s v] Set_delete_not_has [of s v] Set_delete_set [of v s]
  show ?thesis by blast
qed

theorem control_frames_witness:
  "ws_on_message 1 None [(0, client OPEN [JNum 42]), (1, client OPEN [JNum 7])]
     = [(0, client OPEN [JNum 42]), (1, client OPEN [JNum 7])]
   \<and> ws_on_message 1 (Some (JObj [(''type'', JStr ''ping''), (''chatId'', JNum 42)]))
       [(0, client OPEN [JNum 42]), (1, client OPEN [JNum 7])]
     = [(0, client OPEN [JNum 42]), (1, client OPEN [JNum 7])]
   \<and> ws_on_message 1 (Some (subscribe_frame (JNum 0)))
       [(0, client OPEN [JNum 42]), (1, client OPEN [JNum 7])]
     = [(0, client OPEN [JNum 42]), (1, client OPEN [JNum 7])]
   \<and> ws_on_message 1 (Some (subscribe_frame (JNum 42)))
       [(0, client OPEN [JNum 42]), (1, client OPEN [JNum 7])]
     = [(0, client OPEN [JNum 42]), (1, client OPEN [JNum 7, JNum 42])]
   \<and> ws_on_message 1 (Some (unsubscribe_frame (JNum 7)))
       [(0, client OPEN [JNum 42]), (1, client OPEN [JNum 7])]
     = [(0, client OPEN [JNum 42]), (1, client OPEN [])]"
  using
    control_frames [of None 1 "[(0, client OPEN [JNum 42]), (1, client OPEN [JNum 7])]"]
    control_frames [of "Some (JObj [(''type'', JStr ''ping''), (''chatId'', JNum 42)])" 1
                       "[(0, client OPEN [JNum 42]), (1, client OPEN [JNum 7])]"]
    control_frames [of "Some (subscribe_frame (JNum 0))" 1
                       "[(0, client OPEN [JNum 42]), (1, client OPEN [JNum 7])]"]
    control_frames [of _ 1 "[(0, client OPEN [JNum 42]), (1, client OPEN [JNum 7])]"
                       "subscribe_frame (JNum 42)" "JNum 42"]
    control_frames [of _ 1 "[(0, client OPEN [JNum 42]), (1, client OPEN [JNum 7])]"
                       "unsubscribe_frame (JNum 7)" "JNum 7"]
  by (simp add: subscribe_frame_def unsubscribe_frame_def client_def Set_add_def Set_has_def
      Set_delete_def)


section \<open>Broadcasting message changes\<close>

text \<open>
  C1, as the code implements it. For every message change that is dispatched (insert,
  update or delete) and every registered client whose socket is open, the client is sent
  the frame if and only if its subscription set is empty or holds the chat identifier of
  the payload; a registered client whose socket is not open is sent nothing. No message
  change is global by itself. Subscription sets hold truthy values only, which the
  handlers of the registry maintain. Nothing else of a client changes.
\<close>

theorem dispatch_matching_open_sessions:
  assumes "change_frame ch = Some (messageType, payload)"
    and "\<forall>(a, c)\<in>set cs. \<forall>v\<in>set (subscribedChats c). truthy v"
  shows "list_all2
     (\<lambda>(a, c) (a', c'). a' = a \<and> subscribedChats c' = subscribedChats c
        \<and> readyState (ws c') = readyState (ws c)
        \<and> sent (ws c') =
            (if readyState (ws c) = OPEN
                \<and> (Set_size (subscribedChats c) = 0
                    \<or> Set_has (subscribedChats c) (payload_chat_id payload))
             then sent (ws c) @ [frame messageType payload]
             else sent (ws c)))
     cs (messages_on_change ch cs)"
proof -
  have t: "truthy (payload_chat_id payload)"
    if "(a, c) \<in> set cs" and "Set_has (subscribedChats c) (payload_chat_id payload)" for a c
    using that assms(2) by (auto simp: Set_has_def)
  show ?thesis
    using assms(1) t
    by (auto simp: messages_on_change_def list_all2_map_self deliver_def send_def Let_def)
qed

theorem dispatch_matching_open_sessions_witness:
  "messages_on_change insert_m1
     [(0, client OPEN []), (1, client OPEN [JNum 42]), (2, client OPEN [JNum 99]),
      (3, client CLOSING [JNum 42])]
   = [(0, \<lparr>ws = \<lparr>readyState = OPEN,
                 sent = [JObj [(''type'', JStr ''new_message''),
                               (''payload'', JObj [(''_id'', JStr ''m1''), (''chat_id'', JNum 42),
                                                   (''text'', JStr ''hi'')])]]\<rparr>,
            subscribedChats = []\<rparr>),
      (1, \<lparr>ws = \<lparr>readyState = OPEN,
                 sent = [JObj [(''type'', JStr ''new_message''),
                               (''payload'', JObj [(''_id'', JStr ''m1''), (''chat_id'', JNum 42),
                                                   (''text'', JStr ''hi'')])]]\<rparr>,
            subscribedChats = [JNum 42]\<rparr>),
      (2, client OPEN [JNum 99]),
      (3, client CLOSING [JNum 42])]"
proof -
  have f: "change_frame insert_m1
      = Some (''new_message'', JObj [(''_id'', JStr ''m1''), (''chat_id'', JNum 42),
                                     (''text'', JStr ''hi'')])"
    by (simp add: change_frame_def insert_m1_def spread_with_id_def m1_def)
  have inv: "\<forall>(a, c)\<in>set [(0, client OPEN []), (1, client OPEN [JNum 42]),
        (2, client OPEN [JNum 99]), (3, client CLOSING [JNum 42])].
      \<forall>v\<in>set (subscribedChats c). truthy v"
    by (simp add: client_def)
  show ?thesis
    using dispatch_matching_open_sessions [OF f inv]
    by (simp add: messages_on_change_def f deliver_def client_def frame_def send_def
        payload_chat_id_def Set_size_def Set_has_def Let_def)
qed

text \<open>
  C1 as stated fails: a registered client with an empty subscription set whose socket is
  closing is sent nothing when \<^verbatim>\<open>m1\<close> is inserted.
\<close>

theorem dispatch_skips_closing_global_session:
  "change_frame insert_m1 \<noteq> None
   \<and> subscribedChats (client CLOSING []) = []
   \<and> messages_on_change insert_m1 [(0, client CLOSING [])] = [(0, client CLOSING [])]"
  by (simp add: messages_on_change_def change_frame_def insert_m1_def client_def deliver_def)

text \<open>
  C2, as the code implements it. For every delete of a message, the clients that are sent
  the \<^verbatim>\<open>delete_message\<close> frame are exactly the registered clients whose socket is open and
  whose subscription set is empty; the payload of the frame carries the identity under
  \<^verbatim>\<open>id\<close> and no \<^verbatim>\<open>chat_id\<close> (it is \<^verbatim>\<open>undefined\<close> and \<^verbatim>\<open>JSON.stringify\<close> leaves it out).
  A client with a non-empty subscription set is sent nothing, whatever it subscribed to.
\<close>

theorem delete_frame_global_only:
  assumes "operationType ch = Delete"
  shows "list_all2
     (\<lambda>(a, c) (a', c'). a' = a \<and> subscribedChats c' = subscribedChats c
        \<and> readyState (ws c') = readyState (ws c)
        \<and> sent (ws c') =
            (if readyState (ws c) = OPEN \<and> Set_size (subscribedChats c) = 0
             then sent (ws c) @ [JObj [(''type'', JStr ''delete_message''),
                                       (''payload'', JObj [(''id'', JStr (documentKey ch))])]]
             else sent (ws c)))
     cs (messages_on_change ch cs)"
  using assms
  by (auto simp: messages_on_change_def list_all2_map_self deliver_def send_def Let_def
       change_frame_def frame_def payload_chat_id_def)

theorem delete_frame_global_only_witness:
  "messages_on_change delete_m1 [(0, client OPEN [JNum 42]), (1, client OPEN [])]
   = [(0, client OPEN [JNum 42]),
      (1, \<lparr>ws = \<lparr>readyState = OPEN,
                 sent = [JObj [(''type'', JStr ''delete_message''),
                               (''payload'', JObj [(''id'', JStr ''m1'')])]]\<rparr>,
            subscribedChats = []\<rparr>)]"
proof -
  have d: "operationType delete_m1 = Delete"
    by (simp add: delete_m1_def)
  show ?thesis
    using delete_frame_global_only [OF d, of "[(0, client OPEN [JNum 42]), (1, client OPEN [])]"]
    by (simp add: messages_on_change_def change_frame_def delete_m1_def client_def deliver_def
        frame_def payload_chat_id_def send_def Set_size_def Set_has_def Let_def)
qed

text \<open>
  C2 as stated fails: \<^verbatim>\<open>m1\<close> is inserted in chat 42 and then deleted. The client
  subscribed to 42 is sent the \<^verbatim>\<open>new_message\<close> frame but no \<^verbatim>\<open>delete_message\<close> frame,
  and the frame the global client is sent has no \<^verbatim>\<open>chat_id\<close>.
\<close>

theorem delete_not_routed_to_channel_subscriber:
  "messages_on_change delete_m1
      (messages_on_change insert_m1 [(0, client OPEN [JNum 42]), (1, client OPEN [])])
   = [(0, \<lparr>ws = \<lparr>readyState = OPEN,
                 sent = [JObj [(''type'', JStr ''new_message''),
                               (''payload'', JObj [(''_id'', JStr ''m1''), (''chat_id'', JNum 42),
                                                   (''text'', JStr ''hi'')])]]\<rparr>,
            subscribedChats = [JNum 42]\<rparr>),
      (1, \<lparr>ws = \<lparr>readyState = OPEN,
                 sent = [JObj [(''type'', JStr ''new_message''),
                               (''payload'', JObj [(''_id'', JStr ''m1''), (''chat_id'', JNum 42),
                                                   (''text'', JStr ''hi'')])],
                         JObj [(''type'', JStr ''delete_message''),
                               (''payload'', JObj [(''id'', JStr ''m1'')])]]\<rparr>,
            subscribedChats = []\<rparr>)]"
  by (simp add: messages_on_change_def change_frame_def insert_m1_def delete_m1_def m1_def
      client_def deliver_def frame_def payload_chat_id_def spread_with_id_def send_def
      Set_size_def Set_has_def Let_def)

text \<open>
  C7, as the code implements it. Dispatch never removes a client from the registry and
  never sends again a frame of an earlier change: each client is sent at most the frame of
  the change being dispatched. A client whose socket is not open is passed over and left
  exactly as it was, still registered. What a client is sent does not depend on the other
  clients of the registry, so passing one over neither drops nor changes the delivery to
  the others.
\<close>

theorem dispatch_keeps_registry:
  "map fst (messages_on_change ch cs) = map fst cs
   \<and> list_all2 (\<lambda>(a, c) (a', c'). readyState (ws c) \<noteq> OPEN \<longrightarrow> c' = c)
        cs (messages_on_change ch cs)
   \<and> list_all2 (\<lambda>(a, c) (a', c'). sent (ws c') = sent (ws c)
         \<or> (\<exists>t p. change_frame ch = Some (t, p) \<and> sent (ws c') = sent (ws c) @ [frame t p]))
        cs (messages_on_change ch cs)
   \<and> messages_on_change ch (xs @ ys) = messages_on_change ch xs @ messages_on_change ch ys"
  by (auto simp: messages_on_change_def list_all2_map_self deliver_def send_def Let_def
      list_all2_same split: option.splits)

theorem dispatch_keeps_registry_witness:
  "map fst (messages_on_change insert_m1 [(0, client CLOSED [JNum 42]), (1, client OPEN [JNum 42])])
     = [0, 1]
   \<and> messages_on_change insert_m1 ([(0, client CLOSED [JNum 42])] @ [(1, client OPEN [JNum 42])])
     = messages_on_change insert_m1 [(0, client CLOSED [JNum 42])]
       @ messages_on_change insert_m1 [(1, client OPEN [JNum 42])]
   \<and> messages_on_change insert_m1 [(0, client CLOSED [JNum 42])] = [(0, client CLOSED [JNum 42])]"
  using
    dispatch_keeps_registry [of insert_m1 "[(0, client CLOSED [JNum 42]), (1, client OPEN [JNum 42])]"
      "[(0, client CLOSED [JNum 42])]" "[(1, client OPEN [JNum 42])]"]
    dispatch_keeps_registry [of insert_m1 "[(0, client CLOSED [JNum 42])]"]
  by (simp add: messages_on_change_def change_frame_def insert_m1_def client_def deliver_def)

text \<open>
  C7 as stated fails: the client whose socket is closing cannot be written to, yet after
  the dispatch it is still in the registry; only the open client is sent the frame.
\<close>

theorem closing_session_stays_registered:
  "messages_on_change insert_m1 [(0, client CLOSING []), (1, client OPEN [])]
   = [(0, client CLOSING []),
      (1, \<lparr>ws = \<lparr>readyState = OPEN,
                 sent = [JObj [(''type'', JStr ''new_message''),
                               (''payload'', JObj [(''_id'', JStr ''m1''), (''chat_id'', JNum 42),
                                                   (''text'', JStr ''hi'')])]]\<rparr>,
            subscribedChats = []\<rparr>)]"
  by (simp add: messages_on_change_def change_frame_def insert_m1_def m1_def
      client_def deliver_def frame_def payload_chat_id_def spread_with_id_def send_def
      Set_size_def Set_has_def Let_def)

section \<open>Broadcasting new groups\<close>

text \<open>
  C3, as the code implements it. For every insert into the activated-chats collection
  whose message count query resolves, every connected client (one of the registry whose
  socket is open) is sent the \<^verbatim>\<open>new_group\<close> frame, whatever its subscription set holds.
  When the count query rejects, the handler ends with that error before the broadcast and
  the registry is left as it was: no client is sent anything.
\<close>

theorem new_group_broadcast:
  assumes "operationType ch = Insert" and "fullDocument ch = Some d"
  shows "activated_on_change (Inl e) ch cs = (Some e, cs)
   \<and> fst (activated_on_change (Inr messageCount) ch cs) = None
   \<and> list_all2
       (\<lambda>(a, c) (a', c'). a' = a \<and> subscribedChats c' = subscribedChats c
          \<and> readyState (ws c') = readyState (ws c)
          \<and> sent (ws c') =
              (if readyState (ws c) = OPEN
               then sent (ws c) @ [frame ''new_group'' (groupData d messageCount)]
               else sent (ws c)))
       cs (snd (activated_on_change (Inr messageCount) ch cs))
   \<and> get_prop (frame ''new_group'' (groupData d messageCount)) ''type'' = Inr (JStr ''new_group'')"
  using assms
  by (auto simp: activated_on_change_def list_all2_map_self send_if_open_def send_def frame_def
      groupData_def)

theorem new_group_broadcast_witness:
  "activated_on_change (Inr 3) insert_chat7
     [(0, client OPEN []), (1, client OPEN [JNum 42]), (2, client CLOSING [JNum 7, JStr ''x''])]
   = (None,
      [(0, \<lparr>ws = \<lparr>readyState = OPEN,
                 sent = [JObj [(''type'', JStr ''new_group''),
                               (''payload'', JObj [(''_id'', JStr ''g7''), (''chat_id'', JNum 7),
                                                   (''chat_title'', JStr ''seven''),
                                                   (''message_count'', JNum 3)])]]\<rparr>,
            subscribedChats = []\<rparr>),
       (1, \<lparr>ws = \<lparr>readyState = OPEN,
                 sent = [JObj [(''type'', JStr ''new_group''),
                               (''payload'', JObj [(''_id'', JStr ''g7''), (''chat_id'', JNum 7),
                                                   (''chat_title'', JStr ''seven''),
                                                   (''message_count'', JNum 3)])]]\<rparr>,
            subscribedChats = [JNum 42]\<rparr>),
       (2, client CLOSING [JNum 7, JStr ''x''])])
   \<and> activated_on_change (Inl MongoError) insert_chat7 [(0, client OPEN [JNum 42])]
     = (Some MongoError, [(0, client OPEN [JNum 42])])"
proof -
  have i: "operationType insert_chat7 = Insert" and d: "fullDocument insert_chat7 = Some chat7"
    by (simp_all add: insert_chat7_def)
  show ?thesis
    using
      new_group_broadcast [OF i d, of MongoError "[(0, client OPEN [JNum 42])]" 3]
      new_group_broadcast [OF i d, of MongoError "[(0, client OPEN []), (1, client OPEN [JNum 42]),
        (2, client CLOSING [JNum 7, JStr ''x''])]" 3]
    by (simp add: activated_on_change_def insert_chat7_def chat7_def client_def send_if_open_def
        send_def frame_def groupData_def field_def)
qed

text \<open>
  C3 as stated fails: the chat 7 is inserted and the count query rejects. The handler
  ends with the error, and the connected client with the empty subscription set is sent
  nothing.
\<close>

theorem new_group_lost_when_count_rejects:
  "operationType insert_chat7 = Insert
   \<and> readyState (ws (client OPEN [])) = OPEN
   \<and> activated_on_change (Inl MongoError) insert_chat7 [(0, client OPEN [])]
     = (Some MongoError, [(0, client OPEN [])])"
  by (simp add: activated_on_change_def insert_chat7_def client_def)


section \<open>Facts about batches, transforms and the index\<close>

lemma batches_Nil: "batches B [] = []"
  by (subst batches.simps) simp



lemma batches_step:
  "0 < B \<Longrightarrow> k < length ds \<Longrightarrow>
   batches B (drop k ds) = take B (drop k ds) # batches B (drop (k + B) ds)"
  by (subst batches.simps) (simp add: ac_simps)

lemma map_transform_Inr: "map_transform xs = Inr ds \<longleftrightarrow> map transform xs = map Inr ds"
proof (induction xs arbitrary: ds)
  case Nil
  then show ?case by auto
next
  case (Cons a xs)
  show ?case
  proof (cases "transform a")
    case (Inl e)
    then show ?thesis by (cases ds) auto
  next
    case (Inr d)
    show ?thesis
    proof (cases "map_transform xs")
      case (Inl e)
      with Cons[of "tl ds"] Inr show ?thesis by (cases ds) auto
    next
      case r: (Inr ds')
      with Cons[of ds'] Cons[of "tl ds"] Inr show ?thesis by (cases ds) auto
    qed
  qed
qed

lemma map_transform_take_drop:
  assumes "map_transform xs = Inr ds"
  shows "map_transform (take n (drop k xs)) = Inr (take n (drop k ds))"
proof -
  from assms have "map transform xs = map Inr ds" by (simp add: map_transform_Inr)
  then have "take n (drop k (map transform xs)) = take n (drop k (map Inr ds))" by simp
  then have "map transform (take n (drop k xs)) = map Inr (take n (drop k ds))"
    by (simp only: take_map drop_map)
  then show ?thesis by (simp add: map_transform_Inr)
qed

lemma map_transform_length: "map_transform xs = Inr ds \<Longrightarrow> length ds = length xs"
  by (simp add: map_transform_Inr) (metis length_map)


lemma transform_id: "transform m = Inr d \<Longrightarrow> d_id d = oid m"
  by (auto simp: transform_def split: sum.splits)


lemma transforms_exist:
  "\<forall>m\<in>set store. \<exists>d. transform m = Inr d \<and> P m d \<Longrightarrow>
   \<exists>ds. map_transform store = Inr ds \<and> (\<forall>d\<in>set ds. \<exists>m\<in>set store. transform m = Inr d \<and> P m d)"
proof (induction store)
  case Nil
  then show ?case by simp
next
  case (Cons m store)
  then obtain d where d: "transform m = Inr d" "P m d" by auto
  from Cons obtain ds where ds: "map_transform store = Inr ds"
    "\<forall>d\<in>set ds. \<exists>m\<in>set store. transform m = Inr d \<and> P m d" by auto
  show ?case
    using d ds by (intro exI[of _ "d # ds"]) auto
qed

lemma fold_upsert_split:
  "fold upsert (drop (k + B) ds) (fold upsert (take B (drop k ds)) m) = fold upsert (drop k ds) m"
proof -
  have "drop B (drop k ds) = drop (k + B) ds"
    by (simp add: ac_simps)
  then have "drop k ds = take B (drop k ds) @ drop (k + B) ds"
    by (metis append_take_drop_id)
  then have "fold upsert (drop k ds) m = fold upsert (take B (drop k ds) @ drop (k + B) ds) m"
    by simp
  then show ?thesis by (simp only: fold_append comp_apply)
qed


lemma fold_upsert_present:
  "\<forall>d\<in>set ds. m (d_id d) = Some d \<Longrightarrow> fold upsert ds m = m"
proof (induction ds arbitrary: m)
  case Nil
  then show ?case by simp
next
  case (Cons d ds)
  then have "upsert d m = m" by (auto simp: upsert_def)
  with Cons show ?case by simp
qed

section \<open>The backfill loop ends\<close>

text \<open>
  With a positive batch size, a reachable index store and no invalid date, the loop
  started in any state returns: it has counted the records from \<open>skip\<close> on and the store
  has accepted their transforms, batch after batch.
\<close>

lemma batch_loop_run:
  assumes B: "0 < B" and ds: "map_transform store = Inr ds"
  shows "\<forall>n. \<not> outage (target s) n \<Longrightarrow>
    \<exists>sk. batch_loop B store (length store) s =
      Some (None,
        \<lparr>processed = processed s + (length store - skip s),
         skip = sk,
         target = (target s)
           \<lparr>documents := fold upsert (drop (skip s) ds) (documents (target s)),
            tasks := tasks (target s) @ map DocumentAdditionOrUpdate (batches B (drop (skip s) ds)),
            requests := requests (target s) + length (batches B (drop (skip s) ds))\<rparr>\<rparr>)"
proof (induction "length store - skip s" arbitrary: s rule: less_induct)
  case less
  have len: "length ds = length store"
    using ds by (rule map_transform_length)
  show ?case
  proof (cases "skip s < length store")
    case False
    then have "drop (skip s) ds = []" using len by simp
    then show ?thesis
      using False by (subst batch_loop.simps) (auto simp: batches_Nil intro!: exI[of _ "skip s"])
  next
    case True
    define k where "k = skip s"
    define page where "page = take B (drop k ds)"
    define idx' where "idx' = (target s)
        \<lparr>documents := fold upsert page (documents (target s)),
         tasks := tasks (target s) @ [DocumentAdditionOrUpdate page],
         requests := Suc (requests (target s))\<rparr>"
    define s' where "s' = \<lparr>processed = processed s + length (take B (drop k store)),
         skip = k + B, target = idx'\<rparr>"
    have msgs: "find_page store (skip s) B = take B (drop k store)"
      using B by (simp add: find_page_def k_def)
    have nonempty: "length (take B (drop k store)) \<noteq> 0"
      using True B by (simp add: k_def)
    have tr: "map_transform (take B (drop k store)) = Inr page"
      unfolding page_def using ds by (rule map_transform_take_drop)
    have add: "addDocuments page (target s) = (Inr (length (tasks (target s))), idx')"
      using less.prems by (simp add: addDocuments_def request_def idx'_def)
    have unfold: "batch_loop B store (length store) s = batch_loop B store (length store) s'"
      using True msgs nonempty tr add
      by (subst batch_loop.simps) (simp add: s'_def k_def Let_def)
    have "length store - skip s' < length store - skip s"
      using True B by (simp add: s'_def k_def)
    moreover have "\<forall>n. \<not> outage (target s') n"
      using less.prems by (simp add: s'_def idx'_def)
    ultimately obtain sk where run: "batch_loop B store (length store) s' =
      Some (None,
        \<lparr>processed = processed s' + (length store - skip s'),
         skip = sk,
         target = (target s')
           \<lparr>documents := fold upsert (drop (skip s') ds) (documents (target s')),
            tasks := tasks (target s') @ map DocumentAdditionOrUpdate (batches B (drop (skip s') ds)),
            requests := requests (target s') + length (batches B (drop (skip s') ds))\<rparr>\<rparr>)"
      using less.hyps[of s'] by blast
    have p: "processed s' + (length store - skip s') = processed s + (length store - skip s)"
      using True by (simp add: s'_def k_def min_def)
    have d: "fold upsert (drop (skip s') ds) (documents (target s'))
             = fold upsert (drop (skip s) ds) (documents (target s))"
      by (simp add: s'_def idx'_def page_def k_def fold_upsert_split)
    have b: "batches B (drop (skip s) ds) = page # batches B (drop (skip s') ds)"
      using batches_step[OF B, of k ds] True len by (simp add: s'_def page_def k_def)
    show ?thesis
      unfolding unfold run p d
      by (simp add: b) (simp add: s'_def idx'_def)
  qed
qed

lemma syncMessages_run:
  assumes "0 < B" and "\<forall>n. \<not> outage idx n" and "map_transform store = Inr ds"
  shows "\<exists>s. syncMessages B store idx = Some (None, s)
     \<and> processed s = length store
     \<and> tasks (target s) = tasks idx @ SettingsUpdate # map DocumentAdditionOrUpdate (batches B ds)
     \<and> documents (target s) = fold upsert ds (documents idx)"
proof (cases "length store = 0")
  case True
  then have "ds = []" using assms(3) by simp
  then show ?thesis
    using True assms(2) by (simp add: syncMessages_def updateSettings_def request_def batches_Nil)
next
  case False
  define idx' where "idx' = idx\<lparr>tasks := tasks idx @ [SettingsUpdate], requests := Suc (requests idx)\<rparr>"
  define s0 where "s0 = \<lparr>processed = 0, skip = 0, target = idx'\<rparr>"
  have up: "updateSettings idx = (Inr (length (tasks idx)), idx')"
    using assms(2) by (simp add: updateSettings_def request_def idx'_def)
  have "\<forall>n. \<not> outage (target s0) n"
    using assms(2) by (simp add: s0_def idx'_def)
  from batch_loop_run[OF assms(1) assms(3) this]
  obtain sk where "batch_loop B store (length store) s0 =
      Some (None,
        \<lparr>processed = processed s0 + (length store - skip s0),
         skip = sk,
         target = (target s0)
           \<lparr>documents := fold upsert (drop (skip s0) ds) (documents (target s0)),
            tasks := tasks (target s0) @ map DocumentAdditionOrUpdate (batches B (drop (skip s0) ds)),
            requests := requests (target s0) + length (batches B (drop (skip s0) ds))\<rparr>\<rparr>)"
    by blast
  then show ?thesis
    using False up by (simp add: syncMessages_def s0_def idx'_def)
qed




section \<open>Incremental synchronisation\<close>

lemma outage_sync_on_change [simp]: "outage (index (sync_on_change ch st)) = outage (index st)"
  by (auto simp: sync_on_change_def sync_upsert_def sync_delete_def addDocuments_def
      deleteDocument_def request_def Let_def split: operation.splits option.splits sum.splits)

lemma outage_watchAndSync [simp]: "outage (index (watchAndSync feed st)) = outage (index st)"
  by (induction feed arbitrary: st) (simp_all add: watchAndSync_def)

lemma sync_step:
  assumes "\<not> outage (index st) (requests (index st))" and "carries i op" and "transformable op"
  shows "documents (index (sync_on_change (event_of i op) st))
         = (documents (index st))(i := direct_transform (apply_op op s))"
  using assms
  by (cases op)
     (auto simp: sync_on_change_def sync_upsert_def sync_delete_def addDocuments_def
        deleteDocument_def request_def Let_def direct_transform_def upsert_def transform_id
        split: sum.splits)

lemma sync_other_identity:
  assumes "carries i op" and "j \<noteq> i"
  shows "documents (index (sync_on_change (event_of i op) st)) j = documents (index st) j"
  using assms
  by (cases op)
     (auto simp: sync_on_change_def sync_upsert_def sync_delete_def addDocuments_def
        deleteDocument_def request_def Let_def upsert_def transform_id
        split: sum.splits)

lemma watch_other_identity:
  "\<forall>x\<in>set ops. carries i x \<Longrightarrow> j \<noteq> i \<Longrightarrow>
   documents (index (watchAndSync (map (event_of i) ops) st)) j = documents (index st) j"
proof (induction ops arbitrary: st)
  case Nil
  then show ?case by (simp add: watchAndSync_def)
next
  case (Cons op ops)
  have "documents (index (watchAndSync (map (event_of i) ops) (sync_on_change (event_of i op) st))) j
        = documents (index (sync_on_change (event_of i op) st)) j"
    using Cons by simp
  also have "\<dots> = documents (index st) j"
    using Cons.prems by (intro sync_other_identity) auto
  finally show ?case by (simp add: watchAndSync_def)
qed

lemma watchAndSync_snoc:
  "watchAndSync (feed @ [ch]) st = sync_on_change ch (watchAndSync feed st)"
  by (simp add: watchAndSync_def)

lemma final_store_state_snoc:
  "final_store_state (ops @ [op]) s0 = apply_op op (final_store_state ops s0)"
  by (simp add: final_store_state_def)

lemma log_sync_on_change:
  "length (log (sync_on_change ch st)) = length (log st) + (if handled ch then 1 else 0)"
  by (auto simp: sync_on_change_def sync_upsert_def sync_delete_def handled_def Let_def
      split: operation.splits option.splits sum.splits prod.splits)

lemma log_watchAndSync:
  "length (log (watchAndSync feed st)) = length (log st) + length (filter handled feed)"
  by (induction feed arbitrary: st) (simp_all add: watchAndSync_def log_sync_on_change)

text \<open>
  C4, as the code implements it. Take any sequence of inserts, updates and deletes of one
  identity \<open>i\<close> and an index that agrees with the store on \<open>i\<close> before the sequence. If the
  sequence is not empty, let the document of its last mutation have valid dates and the
  index store accept the request made for its last notification; the earlier
  notifications may fail. Then, after the incremental handler has handled the
  notifications in feed order, the index document of \<open>i\<close> is the transform of the final
  store state (none if the record is gone), and no other identity of the index has
  changed. A notification whose transform throws or whose request is rejected is dropped
  and never sent again, so without that condition the index can stay behind the store.
\<close>

theorem incremental_final_state:
  assumes "\<forall>x\<in>set ops. carries i x"
    and "documents (index st) i = direct_transform s0"
    and "ops \<noteq> [] \<longrightarrow> transformable (last ops)
           \<and> \<not> outage (index st)
                 (requests (index (watchAndSync (map (event_of i) (butlast ops)) st)))"
  shows "documents (index (watchAndSync (map (event_of i) ops) st)) i
           = direct_transform (final_store_state ops s0)
       \<and> (\<forall>j. j \<noteq> i \<longrightarrow>
            documents (index (watchAndSync (map (event_of i) ops) st)) j = documents (index st) j)"
proof (cases "ops = []")
  case True
  then show ?thesis
    using assms(2) by (simp add: watchAndSync_def final_store_state_def)
next
  case False
  define front where "front = butlast ops"
  define op where "op = last ops"
  define st' where "st' = watchAndSync (map (event_of i) front) st"
  have ops: "ops = front @ [op]"
    using False by (simp add: front_def op_def)
  have acc: "\<not> outage (index st') (requests (index st'))"
    using assms(3) False by (simp add: st'_def front_def)
  have car: "carries i op" and tr: "transformable op"
    using assms(1,3) False by (simp_all add: op_def)
  have run: "watchAndSync (map (event_of i) ops) st = sync_on_change (event_of i op) st'"
    by (simp add: ops st'_def watchAndSync_snoc)
  have "documents (index (sync_on_change (event_of i op) st'))
        = (documents (index st'))(i := direct_transform (apply_op op (final_store_state front s0)))"
    using acc car tr by (rule sync_step)
  then have here: "documents (index (watchAndSync (map (event_of i) ops) st)) i
        = direct_transform (final_store_state ops s0)"
    unfolding run by (simp add: ops final_store_state_snoc)
  have "\<forall>j. j \<noteq> i \<longrightarrow>
      documents (index (watchAndSync (map (event_of i) ops) st)) j = documents (index st) j"
    using assms(1) by (simp add: watch_other_identity)
  with here show ?thesis by blast
qed

theorem incremental_final_state_witness:
  "documents (index (watchAndSync (map (event_of ''m1'') [Ins m1, Del, Ins m1, Upd m1_edited])
                       fresh_sync)) ''m1''
     = direct_transform (Some m1_edited)
   \<and> documents (index (watchAndSync (map (event_of ''m1'') [Ins m1, Upd m1_edited, Del])
                         fresh_sync)) ''m1''
     = None
   \<and> documents (index (watchAndSync (map (event_of ''m1'') [Ins m1, Upd m1_edited])
                         flaky_sync)) ''m1''
     = direct_transform (Some m1_edited)
   \<and> documents (index (watchAndSync (map (event_of ''m1'') [Ins m1, Del, Ins m1, Upd m1_edited])
                         fresh_sync)) ''m2''
     = None"
proof -
  have c1: "\<forall>x\<in>set [Ins m1, Del, Ins m1, Upd m1_edited]. carries ''m1'' x"
    and c2: "\<forall>x\<in>set [Ins m1, Upd m1_edited, Del]. carries ''m1'' x"
    and c3: "\<forall>x\<in>set [Ins m1, Upd m1_edited]. carries ''m1'' x"
    by (simp_all add: m1_def m1_edited_def)
  have a1: "documents (index fresh_sync) ''m1'' = direct_transform None"
    and a2: "documents (index flaky_sync) ''m1'' = direct_transform None"
    by (simp_all add: fresh_sync_def flaky_sync_def empty_index_def direct_transform_def)
  have l1: "[Ins m1, Del, Ins m1, Upd m1_edited] \<noteq> [] \<longrightarrow>
      transformable (last [Ins m1, Del, Ins m1, Upd m1_edited])
      \<and> \<not> outage (index fresh_sync)
            (requests (index (watchAndSync
               (map (event_of ''m1'') (butlast [Ins m1, Del, Ins m1, Upd m1_edited])) fresh_sync)))"
    by (simp add: fresh_sync_def empty_index_def m1_edited_def transform_def field_def
        iso_or_self_def)
  have l2: "[Ins m1, Upd m1_edited, Del] \<noteq> [] \<longrightarrow>
      transformable (last [Ins m1, Upd m1_edited, Del])
      \<and> \<not> outage (index fresh_sync)
            (requests (index (watchAndSync
               (map (event_of ''m1'') (butlast [Ins m1, Upd m1_edited, Del])) fresh_sync)))"
    by (simp add: fresh_sync_def empty_index_def)
  have l3: "[Ins m1, Upd m1_edited] \<noteq> [] \<longrightarrow>
      transformable (last [Ins m1, Upd m1_edited])
      \<and> \<not> outage (index flaky_sync)
            (requests (index (watchAndSync
               (map (event_of ''m1'') (butlast [Ins m1, Upd m1_edited])) flaky_sync)))"
    by (simp add: flaky_sync_def empty_index_def m1_def m1_edited_def transform_def field_def
        iso_or_self_def watchAndSync_def sync_on_change_def sync_upsert_def addDocuments_def
        request_def)
  have e: "documents (index fresh_sync) ''m2'' = None"
    by (simp add: fresh_sync_def empty_index_def)
  show ?thesis
    using incremental_final_state [OF c1 a1 l1] incremental_final_state [OF c2 a1 l2]
      incremental_final_state [OF c3 a2 l3] e
    by (simp add: final_store_state_def direct_transform_def)
qed

text \<open>
  C4 as stated fails. \<^verbatim>\<open>m1\<close> is inserted and then updated. When the index store rejects
  the request made for the update, or when the updated document has an invalid date, the
  handler logs the failure and the index keeps the transform of the inserted document,
  while the store holds the updated one.
\<close>

theorem rejected_update_leaves_index_stale:
  "documents (index (watchAndSync (map (event_of ''m1'') [Ins m1, Upd m1_edited])
                       second_rejected_sync)) ''m1''
     = direct_transform (Some m1)
   \<and> final_store_state [Ins m1, Upd m1_edited] None = Some m1_edited
   \<and> direct_transform (Some m1) \<noteq> direct_transform (Some m1_edited)
   \<and> documents (index (watchAndSync (map (event_of ''m1'') [Ins m1, Upd m1_invalid_date])
                         fresh_sync)) ''m1''
     = direct_transform (Some m1)
   \<and> final_store_state [Ins m1, Upd m1_invalid_date] None = Some m1_invalid_date
   \<and> direct_transform (Some m1) \<noteq> direct_transform (Some m1_invalid_date)"
  by (simp add: watchAndSync_def sync_on_change_def sync_upsert_def m1_def m1_edited_def
      m1_invalid_date_def second_rejected_sync_def fresh_sync_def empty_index_def transform_def
      field_def iso_or_self_def or_false_def addDocuments_def request_def upsert_def
      direct_transform_def final_store_state_def)

text \<open>
  C5. Upserts are idempotent by identity. Once the index store has accepted the request
  made for a notification, handling the same notification again leaves the documents of
  the index as they are (whether the second request is accepted or not). And a backfill
  over records whose transforms the index already holds returns, having counted every
  record, with the documents of the index unchanged.
\<close>

theorem upsert_idempotent:
  "(\<not> outage (index st) (requests (index st))
     \<longrightarrow> documents (index (sync_on_change ch (sync_on_change ch st)))
         = documents (index (sync_on_change ch st)))
   \<and> (0 < B \<and> (\<forall>n. \<not> outage idx n)
       \<and> (\<forall>m\<in>set store. \<exists>d. transform m = Inr d \<and> documents idx (oid m) = Some d)
     \<longrightarrow> (\<exists>s. syncMessages B store idx = Some (None, s)
              \<and> processed s = length store
              \<and> documents (target s) = documents idx))"
proof -
  have a: "\<not> outage (index st) (requests (index st))
     \<longrightarrow> documents (index (sync_on_change ch (sync_on_change ch st)))
         = documents (index (sync_on_change ch st))"
    by (auto simp: sync_on_change_def sync_upsert_def sync_delete_def addDocuments_def
        deleteDocument_def request_def Let_def upsert_def
        split: operation.splits option.splits sum.splits)
  have b: "\<exists>s. syncMessages B store idx = Some (None, s) \<and> processed s = length store
              \<and> documents (target s) = documents idx"
    if B: "0 < B" and up: "\<forall>n. \<not> outage idx n"
      and present: "\<forall>m\<in>set store. \<exists>d. transform m = Inr d \<and> documents idx (oid m) = Some d"
  proof -
    from transforms_exist[OF present] obtain ds where ds: "map_transform store = Inr ds"
      "\<forall>d\<in>set ds. \<exists>m\<in>set store. transform m = Inr d \<and> documents idx (oid m) = Some d"
      by blast
    have "\<forall>d\<in>set ds. documents idx (d_id d) = Some d"
      using ds(2) by (auto simp: transform_id)
    then have "fold upsert ds (documents idx) = documents idx"
      by (rule fold_upsert_present)
    with syncMessages_run[OF B up ds(1)] show ?thesis by auto
  qed
  from a b show ?thesis by blast
qed

theorem upsert_idempotent_witness:
  "documents (index (sync_on_change insert_m1 (sync_on_change insert_m1 fresh_sync)))
     = documents (index (sync_on_change insert_m1 fresh_sync))
   \<and> (\<exists>s. syncMessages 1000 [m1] (index (sync_on_change insert_m1 fresh_sync)) = Some (None, s)
          \<and> processed s = 1
          \<and> documents (target s) = documents (index (sync_on_change insert_m1 fresh_sync)))"
proof -
  have h0: "\<not> outage (index fresh_sync) (requests (index fresh_sync))"
    by (simp add: fresh_sync_def empty_index_def)
  have h1: "(0::nat) < 1000" by simp
  have h2: "\<forall>n. \<not> outage (index (sync_on_change insert_m1 fresh_sync)) n"
    by (simp add: fresh_sync_def empty_index_def)
  have h3: "\<forall>m\<in>set [m1]. \<exists>d. transform m = Inr d
      \<and> documents (index (sync_on_change insert_m1 fresh_sync)) (oid m) = Some d"
    by (simp add: sync_on_change_def sync_upsert_def insert_m1_def m1_def fresh_sync_def
        empty_index_def transform_def field_def iso_or_self_def addDocuments_def request_def
        upsert_def)
  show ?thesis
    using upsert_idempotent [of fresh_sync insert_m1 1000
        "index (sync_on_change insert_m1 fresh_sync)" "[m1]"] h0 h1 h2 h3
    by simp
qed

lemma sync_on_change_index:
  "index st = index st' \<Longrightarrow> index (sync_on_change ch st) = index (sync_on_change ch st')"
  by (cases "operationType ch"; cases "fullDocument ch")
     (simp_all add: sync_on_change_def sync_upsert_def sync_delete_def Let_def
        split: sum.splits prod.splits)

lemma watchAndSync_index:
  "index st = index st' \<Longrightarrow> index (watchAndSync feed st) = index (watchAndSync feed st')"
proof (induction feed arbitrary: st st')
  case Nil
  then show ?case by (simp add: watchAndSync_def)
next
  case (Cons ch feed)
  have "index (sync_on_change ch st) = index (sync_on_change ch st')"
    using Cons.prems by (rule sync_on_change_index)
  then have "index (watchAndSync feed (sync_on_change ch st))
             = index (watchAndSync feed (sync_on_change ch st'))"
    by (rule Cons.IH)
  then show ?case by (simp add: watchAndSync_def)
qed

text \<open>
  C8. In incremental mode a delete for an identity absent from the index, on a reachable
  store, changes no document and is logged as a deletion, not as a failure. An insert or
  update whose transform throws only appends one failure to the log, and the rest of the
  feed leaves the index exactly as if that notification had never come. An insert, update
  or delete whose request the store rejects appends one failure to the log and changes
  nothing of the index but the count of requests made, and the rest of the feed is handled
  from there. In any state, also after failures, an accepted insert or update writes the
  transform under its identity and an accepted delete removes the identity; any other
  notification changes nothing. The index reached depends on the index at the start and
  on the feed, never on what was logged, and every insert or update with a document and
  every delete of the feed writes its log line.
\<close>

theorem incremental_failures_skipped:
  "(operationType ch = Delete \<and> documents (index st) (documentKey ch) = None
      \<and> \<not> outage (index st) (requests (index st))
     \<longrightarrow> documents (index (sync_on_change ch st)) = documents (index st)
         \<and> log (sync_on_change ch st) = log st @ [Deleted (documentKey ch)])
   \<and> ((operationType ch = Insert \<or> operationType ch = Update) \<and> fullDocument ch = Some fd
      \<and> transform fd = Inl e
     \<longrightarrow> sync_on_change ch st = st\<lparr>log := log st @ [Failed e]\<rparr>
         \<and> index (watchAndSync (ch # feed) st) = index (watchAndSync feed st))
   \<and> ((operationType ch = Delete
        \<or> (operationType ch = Insert \<or> operationType ch = Update) \<and> fullDocument ch = Some fd
            \<and> transform fd = Inr d)
      \<and> outage (index st) (requests (index st))
     \<longrightarrow> sync_on_change ch st
           = st\<lparr>index := (index st)\<lparr>requests := Suc (requests (index st))\<rparr>,
                log := log st @ [Failed IndexStoreError]\<rparr>
         \<and> index (watchAndSync (ch # feed) st)
           = index (watchAndSync feed
                     (st\<lparr>index := (index st)\<lparr>requests := Suc (requests (index st))\<rparr>\<rparr>)))
   \<and> ((operationType ch = Insert \<or> operationType ch = Update) \<and> fullDocument ch = Some fd
      \<and> transform fd = Inr d \<and> \<not> outage (index st) (requests (index st))
     \<longrightarrow> sync_on_change ch st
           = st\<lparr>index := (index st)
                   \<lparr>documents := (documents (index st))(d_id d \<mapsto> d),
                    tasks := tasks (index st) @ [DocumentAdditionOrUpdate [d]],
                    requests := Suc (requests (index st))\<rparr>,
                log := log st @ [Indexed (operationType ch) (d_id d)]\<rparr>)
   \<and> (operationType ch = Delete \<and> \<not> outage (index st) (requests (index st))
     \<longrightarrow> sync_on_change ch st
           = st\<lparr>index := (index st)
                   \<lparr>documents := (documents (index st))(documentKey ch := None),
                    tasks := tasks (index st) @ [DocumentDeletion (documentKey ch)],
                    requests := Suc (requests (index st))\<rparr>,
                log := log st @ [Deleted (documentKey ch)]\<rparr>)
   \<and> (\<not> handled ch \<longrightarrow> sync_on_change ch st = st)
   \<and> watchAndSync (ch # feed) st = watchAndSync feed (sync_on_change ch st)
   \<and> (index st = index st' \<longrightarrow> index (watchAndSync feed st) = index (watchAndSync feed st'))
   \<and> length (log (watchAndSync feed st)) = length (log st) + length (filter handled feed)"
proof -
  have a: "operationType ch = Delete \<and> documents (index st) (documentKey ch) = None
      \<and> \<not> outage (index st) (requests (index st))
     \<longrightarrow> documents (index (sync_on_change ch st)) = documents (index st)
         \<and> log (sync_on_change ch st) = log st @ [Deleted (documentKey ch)]"
    by (auto simp: sync_on_change_def sync_delete_def deleteDocument_def request_def Let_def)
  have b1: "sync_on_change ch st = st\<lparr>log := log st @ [Failed e]\<rparr>"
    if "operationType ch = Insert \<or> operationType ch = Update" "fullDocument ch = Some fd"
      "transform fd = Inl e"
    using that by (auto simp: sync_on_change_def sync_upsert_def)
  have b2: "index (watchAndSync (ch # feed) st) = index (watchAndSync feed st)"
    if "operationType ch = Insert \<or> operationType ch = Update" "fullDocument ch = Some fd"
      "transform fd = Inl e"
  proof -
    have "index (sync_on_change ch st) = index st"
      using b1[OF that] by simp
    then have "index (watchAndSync feed (sync_on_change ch st)) = index (watchAndSync feed st)"
      by (rule watchAndSync_index)
    then show ?thesis by (simp add: watchAndSync_def)
  qed
  have c1: "sync_on_change ch st
           = st\<lparr>index := (index st)\<lparr>requests := Suc (requests (index st))\<rparr>,
                log := log st @ [Failed IndexStoreError]\<rparr>"
    if "operationType ch = Delete
        \<or> (operationType ch = Insert \<or> operationType ch = Update) \<and> fullDocument ch = Some fd
            \<and> transform fd = Inr d"
      "outage (index st) (requests (index st))"
    using that
    by (auto simp: sync_on_change_def sync_upsert_def sync_delete_def addDocuments_def
        deleteDocument_def request_def Let_def)
  have c2: "index (watchAndSync (ch # feed) st)
           = index (watchAndSync feed
                     (st\<lparr>index := (index st)\<lparr>requests := Suc (requests (index st))\<rparr>\<rparr>))"
    if "operationType ch = Delete
        \<or> (operationType ch = Insert \<or> operationType ch = Update) \<and> fullDocument ch = Some fd
            \<and> transform fd = Inr d"
      "outage (index st) (requests (index st))"
  proof -
    have "index (sync_on_change ch st)
          = index (st\<lparr>index := (index st)\<lparr>requests := Suc (requests (index st))\<rparr>\<rparr>)"
      using c1[OF that] by simp
    then have "index (watchAndSync feed (sync_on_change ch st))
          = index (watchAndSync feed
                     (st\<lparr>index := (index st)\<lparr>requests := Suc (requests (index st))\<rparr>\<rparr>))"
      by (rule watchAndSync_index)
    then show ?thesis by (simp add: watchAndSync_def)
  qed
  have d1: "(operationType ch = Insert \<or> operationType ch = Update) \<and> fullDocument ch = Some fd
      \<and> transform fd = Inr d \<and> \<not> outage (index st) (requests (index st))
     \<longrightarrow> sync_on_change ch st
           = st\<lparr>index := (index st)
                   \<lparr>documents := (documents (index st))(d_id d \<mapsto> d),
                    tasks := tasks (index st) @ [DocumentAdditionOrUpdate [d]],
                    requests := Suc (requests (index st))\<rparr>,
                log := log st @ [Indexed (operationType ch) (d_id d)]\<rparr>"
    by (auto simp: sync_on_change_def sync_upsert_def addDocuments_def request_def upsert_def)
  have d2: "operationType ch = Delete \<and> \<not> outage (index st) (requests (index st))
     \<longrightarrow> sync_on_change ch st
           = st\<lparr>index := (index st)
                   \<lparr>documents := (documents (index st))(documentKey ch := None),
                    tasks := tasks (index st) @ [DocumentDeletion (documentKey ch)],
                    requests := Suc (requests (index st))\<rparr>,
                log := log st @ [Deleted (documentKey ch)]\<rparr>"
    by (auto simp: sync_on_change_def sync_delete_def deleteDocument_def request_def Let_def)
  have n: "\<not> handled ch \<longrightarrow> sync_on_change ch st = st"
    by (auto simp: handled_def sync_on_change_def sync_upsert_def
        split: operation.splits option.splits)
  have f: "watchAndSync (ch # feed) st = watchAndSync feed (sync_on_change ch st)"
    by (simp add: watchAndSync_def)
  have g: "index st = index st' \<longrightarrow> index (watchAndSync feed st) = index (watchAndSync feed st')"
    by (intro impI watchAndSync_index)
  have b: "(operationType ch = Insert \<or> operationType ch = Update) \<and> fullDocument ch = Some fd
      \<and> transform fd = Inl e
     \<longrightarrow> sync_on_change ch st = st\<lparr>log := log st @ [Failed e]\<rparr>
         \<and> index (watchAndSync (ch # feed) st) = index (watchAndSync feed st)"
  proof
    assume h: "(operationType ch = Insert \<or> operationType ch = Update)
      \<and> fullDocument ch = Some fd \<and> transform fd = Inl e"
    then have h1: "operationType ch = Insert \<or> operationType ch = Update"
      and h2: "fullDocument ch = Some fd" and h3: "transform fd = Inl e"
      by simp_all
    from b1[OF h1 h2 h3] b2[OF h1 h2 h3]
    show "sync_on_change ch st = st\<lparr>log := log st @ [Failed e]\<rparr>
         \<and> index (watchAndSync (ch # feed) st) = index (watchAndSync feed st)"
      by (rule conjI)
  qed
  have c: "(operationType ch = Delete
        \<or> (operationType ch = Insert \<or> operationType ch = Update) \<and> fullDocument ch = Some fd
            \<and> transform fd = Inr d)
      \<and> outage (index st) (requests (index st))
     \<longrightarrow> sync_on_change ch st
           = st\<lparr>index := (index st)\<lparr>requests := Suc (requests (index st))\<rparr>,
                log := log st @ [Failed IndexStoreError]\<rparr>
         \<and> index (watchAndSync (ch # feed) st)
           = index (watchAndSync feed
                     (st\<lparr>index := (index st)\<lparr>requests := Suc (requests (index st))\<rparr>\<rparr>))"
  proof
    assume h: "(operationType ch = Delete
        \<or> (operationType ch = Insert \<or> operationType ch = Update) \<and> fullDocument ch = Some fd
            \<and> transform fd = Inr d)
      \<and> outage (index st) (requests (index st))"
    then have h1: "operationType ch = Delete
        \<or> (operationType ch = Insert \<or> operationType ch = Update) \<and> fullDocument ch = Some fd
            \<and> transform fd = Inr d"
      and h2: "outage (index st) (requests (index st))"
      by simp_all
    from c1[OF h1 h2] c2[OF h1 h2]
    show "sync_on_change ch st
           = st\<lparr>index := (index st)\<lparr>requests := Suc (requests (index st))\<rparr>,
                log := log st @ [Failed IndexStoreError]\<rparr>
         \<and> index (watchAndSync (ch # feed) st)
           = index (watchAndSync feed
                     (st\<lparr>index := (index st)\<lparr>requests := Suc (requests (index st))\<rparr>\<rparr>))"
      by (rule conjI)
  qed
  have l: "length (log (watchAndSync feed st)) = length (log st) + length (filter handled feed)"
    by (rule log_watchAndSync)
  show ?thesis
    by (intro conjI) (rule a b c d1 d2 n f g l)+
qed

theorem incremental_failures_skipped_witness:
  "log (sync_on_change delete_m1 fresh_sync) = [Deleted ''m1'']
   \<and> documents (index (sync_on_change delete_m1 fresh_sync)) = documents (index fresh_sync)
   \<and> log (watchAndSync [insert_bad_date, insert_m1] fresh_sync)
       = [Failed RangeError, Indexed Insert ''m1'']
   \<and> index (watchAndSync [insert_bad_date, insert_m1] fresh_sync)
       = index (watchAndSync [insert_m1] fresh_sync)
   \<and> documents (index (watchAndSync [insert_bad_date, insert_m1] fresh_sync)) ''m1''
       = direct_transform (Some m1)
   \<and> log (watchAndSync [insert_m1, insert_m1] flaky_sync)
       = [Failed IndexStoreError, Indexed Insert ''m1'']
   \<and> documents (index (watchAndSync [insert_m1, insert_m1] flaky_sync)) ''m1''
       = direct_transform (Some m1)"
  using
    incremental_failures_skipped [where ch = delete_m1 and st = fresh_sync and feed = "[]"]
    incremental_failures_skipped [where ch = insert_bad_date and st = fresh_sync
      and fd = bad_date and e = RangeError and feed = "[insert_m1]"]
    incremental_failures_skipped [where ch = insert_m1 and st = flaky_sync and fd = m1
      and feed = "[insert_m1]"]
  by (simp add: watchAndSync_def sync_on_change_def sync_upsert_def sync_delete_def
      insert_m1_def delete_m1_def insert_bad_date_def m1_def bad_date_def fresh_sync_def
      flaky_sync_def empty_index_def transform_def field_def iso_or_self_def or_false_def
      addDocuments_def deleteDocument_def request_def upsert_def direct_transform_def Let_def
      handled_def)


end
